theory Spec2Isabelle
  imports Complex_Main
begin

section \<open>JavaScript numbers: IEEE 754 binary64, round to nearest, ties to even\<close>

text \<open>
  A JavaScript number is NaN, an infinity, or a finite double. \<open>Fin s m e\<close> is the finite
  double of sign \<open>s\<close> (\<open>True\<close> is negative) and value \<open>m * 2 ^ e\<close>, kept in the one shape a
  double has: \<open>0 < m < 2 ^ 53\<close>, \<open>- 1074 \<le> e \<le> 971\<close>, and \<open>e = - 1074\<close> whenever
  \<open>m < 2 ^ 52\<close> (the subnormals); the two zeros are \<open>Fin s 0 0\<close>. This shape is
  \<open>canonical\<close> below, and every operation returns it, so equality of two values of this
  type is bit-identity of the doubles (with a single NaN), while \<open>===\<close> is \<open>js_eq\<close>.
\<close>

datatype jsnum = NaN | Inf bool | Fin bool int int

definition pow2 :: "int \<Rightarrow> int" where
  "pow2 k = 2 ^ nat k"

function bit_length :: "int \<Rightarrow> int" where
  "bit_length a = (if a \<le> 0 then 0 else 1 + bit_length (a div 2))"
  by pat_completeness auto
termination
  by (relation "measure nat") auto

declare bit_length.simps [simp del]

definition ilog2 :: "int \<Rightarrow> int \<Rightarrow> int" where
  \<comment> \<open>\<open>\<lfloor>log\<^sub>2 (a / b)\<rfloor>\<close> for positive \<open>a\<close> and \<open>b\<close>\<close>
  "ilog2 a b =
     (let d = bit_length a - bit_length b
      in if (if 0 \<le> d then b * pow2 d \<le> a else b \<le> a * pow2 (- d)) then d else d - 1)"

definition round_half_even :: "int \<Rightarrow> int \<Rightarrow> int" where
  \<comment> \<open>the integer nearest to \<open>a / b\<close> (\<open>0 < b\<close>), the even one of two equally near\<close>
  "round_half_even a b =
     (let q = a div b; r = a mod b
      in if 2 * r < b then q
         else if b < 2 * r then q + 1
         else if even q then q else q + 1)"

definition rounding_exponent :: "int \<Rightarrow> int \<Rightarrow> int" where
  \<comment> \<open>the exponent of the doubles around \<open>a / b\<close>: from \<open>2 ^ 52\<close> on they are the multiples
      of \<open>2 ^ (\<lfloor>log\<^sub>2 (a / b)\<rfloor> - 52)\<close>, the subnormals are the multiples of \<open>2 ^ (- 1074)\<close>\<close>
  "rounding_exponent a b = max (ilog2 a b - 52) (- 1074)"

definition rounded_significand :: "int \<Rightarrow> int \<Rightarrow> int" where
  \<comment> \<open>\<open>a / b\<close> in units of \<open>2 ^ rounding_exponent a b\<close>, rounded to an integer\<close>
  "rounded_significand a b =
     (let ex = rounding_exponent a b
      in if 0 \<le> ex then round_half_even a (b * pow2 ex)
         else round_half_even (a * pow2 (- ex)) b)"

definition round_ratio :: "bool \<Rightarrow> int \<Rightarrow> int \<Rightarrow> jsnum" where
  \<comment> \<open>the double nearest to \<open>\<plusminus> a / b\<close> (\<open>0 \<le> a\<close>, \<open>0 < b\<close>); overflow gives an infinity\<close>
  "round_ratio s a b =
     (if a = 0 then Fin s 0 0
      else
        let ex = rounding_exponent a b;
            m = rounded_significand a b;
            m' = (if m = pow2 53 then pow2 52 else m);
            ex' = (if m = pow2 53 then ex + 1 else ex)
        in if 971 < ex' then Inf s
           else if m' = 0 then Fin s 0 0
           else Fin s m' ex')"

definition round_scaled :: "bool \<Rightarrow> int \<Rightarrow> int \<Rightarrow> int \<Rightarrow> jsnum" where
  \<comment> \<open>the double nearest to \<open>\<plusminus> (a / b) * 2 ^ k\<close>\<close>
  "round_scaled s a b k =
     (if 0 \<le> k then round_ratio s (a * pow2 k) b else round_ratio s a (b * pow2 (- k)))"

fun canonical :: "jsnum \<Rightarrow> bool" where
  \<comment> \<open>the shape of a double\<close>
  "canonical (Fin s m e) =
     (m = 0 \<and> e = 0 \<or>
      0 < m \<and> m < pow2 53 \<and> - 1074 \<le> e \<and> e \<le> 971 \<and> (pow2 52 \<le> m \<or> e = - 1074))"
| "canonical a = True"

definition js_zero :: jsnum where
  "js_zero = Fin False 0 0"

definition js_of_int :: "int \<Rightarrow> jsnum" where
  "js_of_int i = round_ratio (i < 0) \<bar>i\<bar> 1"

definition js_of_nat :: "nat \<Rightarrow> jsnum" where
  "js_of_nat n = js_of_int (int n)"

definition js_decimal :: "int \<Rightarrow> int \<Rightarrow> jsnum" where
  \<comment> \<open>the numeric literal of value \<open>a / b\<close>, \<open>0 < b\<close>\<close>
  "js_decimal a b = round_ratio (a < 0) \<bar>a\<bar> b"

definition signed :: "bool \<Rightarrow> int \<Rightarrow> int" where
  "signed s m = (if s then - m else m)"

text \<open>
  Unary minus and \<open>Math.abs\<close> act on the sign; \<open>+\<close>, \<open>-\<close>, \<open>*\<close> and \<open>/\<close> round the exact
  result of two finite operands, and follow IEEE 754 on zeros, infinities and NaN.
\<close>

fun js_neg :: "jsnum \<Rightarrow> jsnum" where
  "js_neg NaN = NaN"
| "js_neg (Inf s) = Inf (\<not> s)"
| "js_neg (Fin s m e) = Fin (\<not> s) m e"

fun js_abs :: "jsnum \<Rightarrow> jsnum" where
  "js_abs NaN = NaN"
| "js_abs (Inf s) = Inf False"
| "js_abs (Fin s m e) = Fin False m e"

fun js_add :: "jsnum \<Rightarrow> jsnum \<Rightarrow> jsnum" where
  "js_add NaN b = NaN"
| "js_add a NaN = NaN"
| "js_add (Inf s) (Inf t) = (if s = t then Inf s else NaN)"
| "js_add (Inf s) (Fin t m e) = Inf s"
| "js_add (Fin s m e) (Inf t) = Inf t"
| "js_add (Fin s1 m1 e1) (Fin s2 m2 e2) =
     (let e = min e1 e2;
          v = signed s1 (m1 * pow2 (e1 - e)) + signed s2 (m2 * pow2 (e2 - e))
      in if v = 0 then Fin (s1 \<and> s2) 0 0
         else round_scaled (v < 0) \<bar>v\<bar> 1 e)"

definition js_sub :: "jsnum \<Rightarrow> jsnum \<Rightarrow> jsnum" where
  "js_sub a b = js_add a (js_neg b)"

fun js_mul :: "jsnum \<Rightarrow> jsnum \<Rightarrow> jsnum" where
  "js_mul NaN b = NaN"
| "js_mul a NaN = NaN"
| "js_mul (Inf s) (Inf t) = Inf (s \<noteq> t)"
| "js_mul (Inf s) (Fin t m e) = (if m = 0 then NaN else Inf (s \<noteq> t))"
| "js_mul (Fin s m e) (Inf t) = (if m = 0 then NaN else Inf (s \<noteq> t))"
| "js_mul (Fin s1 m1 e1) (Fin s2 m2 e2) = round_scaled (s1 \<noteq> s2) (m1 * m2) 1 (e1 + e2)"

fun js_div :: "jsnum \<Rightarrow> jsnum \<Rightarrow> jsnum" where
  "js_div NaN b = NaN"
| "js_div a NaN = NaN"
| "js_div (Inf s) (Inf t) = NaN"
| "js_div (Inf s) (Fin t m e) = Inf (s \<noteq> t)"
| "js_div (Fin s m e) (Inf t) = Fin (s \<noteq> t) 0 0"
| "js_div (Fin s1 m1 e1) (Fin s2 m2 e2) =
     (if m2 = 0 then (if m1 = 0 then NaN else Inf (s1 \<noteq> s2))
      else round_scaled (s1 \<noteq> s2) m1 m2 (e1 - e2))"

text \<open>
  \<open>Math.sqrt\<close> is the real square root, rounded. The significand is scaled by
  \<open>2 ^ 108\<close> so that the integer square root \<open>r\<close> has at least 55 bits; then every number
  strictly between \<open>r\<close> and \<open>r + 1\<close> rounds to the same double, and \<open>r + 1 / 2\<close> stands for
  the square root when it is not \<open>r\<close> itself.
\<close>

fun isqrt_bits :: "nat \<Rightarrow> int \<Rightarrow> int \<Rightarrow> int" where
  \<comment> \<open>binary search for \<open>\<lfloor>\<surd>x\<rfloor>\<close>, one bit per step, from bit \<open>k - 1\<close> down\<close>
  "isqrt_bits 0 r x = r"
| "isqrt_bits (Suc k) r x =
     (let c = r + 2 ^ k in if c * c \<le> x then isqrt_bits k c x else isqrt_bits k r x)"

fun js_sqrt :: "jsnum \<Rightarrow> jsnum" where
  "js_sqrt NaN = NaN"
| "js_sqrt (Inf s) = (if s then NaN else Inf False)"
| "js_sqrt (Fin s m e) =
     (if m = 0 then Fin s m e
      else if s then NaN
      else
        let m1 = (if even e then m else 2 * m);
            e1 = (if even e then e else e - 1);
            x = m1 * pow2 108;
            r = isqrt_bits 81 0 x;
            k = e1 div 2 - 54
        in if r * r = x then round_scaled False r 1 k
           else round_scaled False (2 * r + 1) 2 k)"

text \<open>The operators \<open><\<close>, \<open>>\<close> and \<open>===\<close> compare values: NaN compares false, \<open>-0 === +0\<close>.\<close>

fun js_lt :: "jsnum \<Rightarrow> jsnum \<Rightarrow> bool" where
  "js_lt NaN b = False"
| "js_lt a NaN = False"
| "js_lt (Inf s) (Inf t) = (s \<and> \<not> t)"
| "js_lt (Inf s) (Fin t m e) = s"
| "js_lt (Fin s m e) (Inf t) = (\<not> t)"
| "js_lt (Fin s1 m1 e1) (Fin s2 m2 e2) =
     (let e = min e1 e2
      in signed s1 (m1 * pow2 (e1 - e)) < signed s2 (m2 * pow2 (e2 - e)))"

definition js_gt :: "jsnum \<Rightarrow> jsnum \<Rightarrow> bool" where
  "js_gt a b = js_lt b a"

fun js_eq :: "jsnum \<Rightarrow> jsnum \<Rightarrow> bool" where
  "js_eq NaN b = False"
| "js_eq a NaN = False"
| "js_eq (Inf s) (Inf t) = (s = t)"
| "js_eq (Inf s) (Fin t m e) = False"
| "js_eq (Fin s m e) (Inf t) = False"
| "js_eq (Fin s1 m1 e1) (Fin s2 m2 e2) =
     (let e = min e1 e2
      in signed s1 (m1 * pow2 (e1 - e)) = signed s2 (m2 * pow2 (e2 - e)))"


section \<open>Strings of numbers: \<open>toFixed\<close> and \<open>Number\<close>\<close>

text \<open>
  \<open>v.toFixed(f)\<close> returns a string. For a finite \<open>v\<close> below \<open>10 ^ 21\<close> in magnitude it is
  the decimal numeral of the integer nearest to \<open>\<bar>v\<bar> * 10 ^ f\<close> (the larger of two
  equally near), with a point before its last \<open>f\<close> digits and the sign of \<open>v\<close> in front.
  For the other numbers it is \<open>ToString(v)\<close>: \<open>NaN\<close>, \<open>Infinity\<close>, or the exponent
  notation of \<open>v\<close>, which is kept as the value \<open>ToString v\<close>; \<open>Number\<close> reads such a string
  back as \<open>v\<close>.
\<close>

datatype js_string = Str string | ToString jsnum

function decimal_digits :: "int \<Rightarrow> string" where
  "decimal_digits i =
     (if i < 10 then [''0123456789'' ! nat i]
      else decimal_digits (i div 10) @ [''0123456789'' ! nat (i mod 10)])"
  by pat_completeness auto
termination
  by (relation "measure nat") auto

declare decimal_digits.simps [simp del]

definition js_toFixed :: "jsnum \<Rightarrow> nat \<Rightarrow> js_string" where
  "js_toFixed v f =
     (case v of
        NaN \<Rightarrow> Str ''NaN''
      | Inf s \<Rightarrow> Str (if s then ''-Infinity'' else ''Infinity'')
      | Fin s m e \<Rightarrow>
          if (if 0 \<le> e then 10 ^ 21 \<le> m * pow2 e else 10 ^ 21 * pow2 (- e) \<le> m)
          then ToString (Fin s m e)
          else
            let i = (if 0 \<le> e then m * pow2 e * 10 ^ f
                     else (2 * m * 10 ^ f + pow2 (- e)) div (2 * pow2 (- e)));
                ds = decimal_digits i;
                ds' = replicate (f + 1 - length ds) CHR ''0'' @ ds;
                k = length ds' - f
            in Str ((if s \<and> m \<noteq> 0 then ''-'' else []) @
                    (if f = 0 then ds' else take k ds' @ ''.'' @ drop k ds')))"

definition digit_value :: "char \<Rightarrow> int option" where
  "digit_value c = map_of (zip ''0123456789'' [0, 1, 2, 3, 4, 5, 6, 7, 8, 9]) c"

fun digits_value :: "int \<Rightarrow> string \<Rightarrow> int option" where
  "digits_value a [] = Some a"
| "digits_value a (c # cs) =
     (case digit_value c of None \<Rightarrow> None | Some d \<Rightarrow> digits_value (10 * a + d) cs)"

definition js_Number :: "js_string \<Rightarrow> jsnum" where
  \<comment> \<open>\<open>Number(t)\<close> on the strings that \<open>toFixed\<close> returns; any other string reads as NaN here\<close>
  "js_Number t =
     (case t of
        ToString v \<Rightarrow> v
      | Str cs \<Rightarrow>
          let s = (cs \<noteq> [] \<and> hd cs = CHR ''-'');
              us = (if s then tl cs else cs);
              ip = takeWhile (\<lambda>c. c \<noteq> CHR ''.'') us;
              fp = drop 1 (dropWhile (\<lambda>c. c \<noteq> CHR ''.'') us)
          in if us = ''Infinity'' then Inf s
             else if ip = [] then NaN
             else (case digits_value 0 (ip @ fp) of
                     None \<Rightarrow> NaN
                   | Some a \<Rightarrow> round_ratio s a (10 ^ length fp)))"

section \<open>The statistics of the scatter plot\<close>

text \<open>
  \<open>src/components/ScatterPlotPlayground.jsx\<close>. A point is an object \<open>{ x, y }\<close> of two
  numbers. \<open>calculateCorrelation\<close> (lines 11 to 46, \<open>computeCorrelation\<close> in the
  specification) returns \<open>{ correlation, steps }\<close> and \<open>calculateRegression\<close> (lines 49 to
  77, \<open>computeRegression\<close>) returns \<open>{ line, steps }\<close>; \<open>null\<close> is \<open>None\<close>. The locals keep
  their names.
\<close>

record point =
  x :: jsnum
  y :: jsnum

record correlation_steps =
  n :: jsnum
  sumX :: js_string
  sumY :: js_string
  sumXY :: js_string
  sumXSquare :: js_string
  sumYSquare :: js_string
  numerator :: js_string
  denominator :: js_string

record correlation_result =
  correlation :: "jsnum option"
  steps :: "correlation_steps option"

record regression_line =
  slope :: jsnum
  intercept :: jsnum

record regression_steps =
  n :: jsnum
  sumX :: js_string
  sumY :: js_string
  sumXY :: js_string
  sumXSquare :: js_string
  slope :: js_string
  intercept :: js_string
  slopeNumerator :: js_string
  slopeDenominator :: js_string

record regression_result =
  line :: "regression_line option"
  steps :: "regression_steps option"

text \<open>\<open>points.reduce((acc, p) => acc + f(p), 0)\<close>: one pass, left to right, from \<open>+0\<close>.\<close>

definition reduce_sum :: "(point \<Rightarrow> jsnum) \<Rightarrow> point list \<Rightarrow> jsnum" where
  "reduce_sum f points = foldl (\<lambda>acc p. js_add acc (f p)) js_zero points"

definition calculateCorrelation :: "point list \<Rightarrow> correlation_result" where
  "calculateCorrelation points =
     (if length points < 3 then \<lparr>correlation = None, correlation_result.steps = None\<rparr>
      else
        let n = js_of_nat (length points);
            sumX = reduce_sum (\<lambda>p. x p) points;
            sumY = reduce_sum (\<lambda>p. y p) points;
            sumXY = reduce_sum (\<lambda>p. js_mul (x p) (y p)) points;
            sumXSquare = reduce_sum (\<lambda>p. js_mul (x p) (x p)) points;
            sumYSquare = reduce_sum (\<lambda>p. js_mul (y p) (y p)) points;
            yMean = js_div sumY n;
            hasYVariation =
              list_ex (\<lambda>p. js_gt (js_abs (js_sub (y p) yMean)) (js_decimal 1 10000)) points
        in if \<not> hasYVariation
           then \<lparr>correlation = Some js_zero, correlation_result.steps = None\<rparr>
           else
             let numerator = js_sub (js_mul n sumXY) (js_mul sumX sumY);
                 denominator =
                   js_sqrt (js_mul (js_sub (js_mul n sumXSquare) (js_mul sumX sumX))
                                   (js_sub (js_mul n sumYSquare) (js_mul sumY sumY)))
             in if js_lt (js_abs denominator) (js_decimal 1 10000)
                then \<lparr>correlation = Some js_zero, correlation_result.steps = None\<rparr>
                else
                  \<lparr>correlation =
                     Some (if js_eq denominator js_zero then js_zero
                           else js_div numerator denominator),
                   correlation_result.steps =
                     Some \<lparr>correlation_steps.n = n,
                           correlation_steps.sumX = js_toFixed sumX 2,
                           correlation_steps.sumY = js_toFixed sumY 2,
                           correlation_steps.sumXY = js_toFixed sumXY 2,
                           correlation_steps.sumXSquare = js_toFixed sumXSquare 2,
                           sumYSquare = js_toFixed sumYSquare 2,
                           numerator = js_toFixed numerator 2,
                           denominator = js_toFixed denominator 2\<rparr>\<rparr>)"

definition calculateRegression :: "point list \<Rightarrow> regression_result" where
  "calculateRegression points =
     (if length points < 3 then \<lparr>line = None, steps = None\<rparr>
      else
        let n = js_of_nat (length points);
            sumX = reduce_sum (\<lambda>p. x p) points;
            sumY = reduce_sum (\<lambda>p. y p) points;
            sumXY = reduce_sum (\<lambda>p. js_mul (x p) (y p)) points;
            sumXSquare = reduce_sum (\<lambda>p. js_mul (x p) (x p)) points;
            denominator = js_sub (js_mul n sumXSquare) (js_mul sumX sumX)
        in if js_eq denominator js_zero then \<lparr>line = None, steps = None\<rparr>
           else
             let slope = js_div (js_sub (js_mul n sumXY) (js_mul sumX sumY)) denominator;
                 intercept = js_div (js_sub sumY (js_mul slope sumX)) n
             in \<lparr>line = Some \<lparr>regression_line.slope = slope,
                               regression_line.intercept = intercept\<rparr>,
                 steps =
                   Some \<lparr>n = n,
                         sumX = js_toFixed sumX 2,
                         sumY = js_toFixed sumY 2,
                         sumXY = js_toFixed sumXY 2,
                         sumXSquare = js_toFixed sumXSquare 2,
                         slope = js_toFixed slope 3,
                         intercept = js_toFixed intercept 3,
                         slopeNumerator =
                           js_toFixed (js_sub (js_mul n sumXY) (js_mul sumX sumY)) 2,
                         slopeDenominator = js_toFixed denominator 2\<rparr>\<rparr>)"

section \<open>The component: clicks, reset and the recomputation\<close>

text \<open>
  \<open>handlePlotClick\<close> is lines 80 to 103, the effect lines 106 to 113, the reset button
  line 513. A \<open>click_event\<close> is what \<open>handlePlotClick\<close> reads of the click: whether its
  target carries the class \<open>point\<close>, the pointer position, and the bounding rectangle of
  the plot. \<open>addPoint\<close> is the last step of \<open>handlePlotClick\<close> (lines 98 to 102), on its
  own.
\<close>

record click_event =
  target_is_point :: bool
  clientX :: jsnum
  clientY :: jsnum
  rect_left :: jsnum
  rect_top :: jsnum
  rect_width :: jsnum
  rect_height :: jsnum

definition pointExists :: "point list \<Rightarrow> jsnum \<Rightarrow> jsnum \<Rightarrow> bool" where
  "pointExists points a b = list_ex (\<lambda>p. js_eq (x p) a \<and> js_eq (y p) b) points"

definition addPoint :: "point list \<Rightarrow> jsnum \<Rightarrow> jsnum \<Rightarrow> point list" where
  \<comment> \<open>the end of \<open>handlePlotClick\<close>: the new value of \<open>points\<close>, for the clicked \<open>(a, b)\<close>\<close>
  "addPoint points a b =
     (if \<not> pointExists points a b then points @ [\<lparr>x = a, y = b\<rparr>] else points)"

definition handlePlotClick :: "point list \<Rightarrow> click_event \<Rightarrow> point list" where
  "handlePlotClick points ev =
     (if target_is_point ev then points
      else
        let relativeX = js_div (js_sub (clientX ev) (rect_left ev)) (rect_width ev);
            relativeY = js_div (js_sub (clientY ev) (rect_top ev)) (rect_height ev);
            a = js_Number (js_toFixed
                  (js_sub (js_mul relativeX (js_of_int 20)) (js_of_int 10)) 2);
            b = js_Number (js_toFixed
                  (js_add (js_mul (js_neg relativeY) (js_of_int 20)) (js_of_int 10)) 2)
        in addPoint points a b)"

record component_state =
  points :: "point list"
  correlation :: "jsnum option"
  regressionLine :: "regression_line option"
  calculationSteps :: "correlation_steps option"
  regressionSteps :: "regression_steps option"

definition useEffect :: "component_state \<Rightarrow> component_state" where
  \<comment> \<open>the effect that runs when \<open>points\<close> has changed\<close>
  "useEffect st =
     (let r = calculateCorrelation (points st);
          regressionResult = calculateRegression (points st)
      in st\<lparr>correlation := correlation_result.correlation r,
             calculationSteps := correlation_result.steps r,
             regressionLine := line regressionResult,
             regressionSteps := regression_result.steps regressionResult\<rparr>)"

definition click :: "component_state \<Rightarrow> click_event \<Rightarrow> component_state" where
  "click st ev = useEffect (st\<lparr>points := handlePlotClick (points st) ev\<rparr>)"

definition reset :: "component_state \<Rightarrow> component_state" where
  "reset st = useEffect (st\<lparr>points := []\<rparr>)"

section \<open>The quantities the statements below refer to\<close>

text \<open>
  The locals of \<open>calculateCorrelation\<close> and \<open>calculateRegression\<close>, as functions of the
  points, and two predicates on numbers that the source itself does not use: \<open>\<le>\<close> and
  being finite.
\<close>

definition js_le :: "jsnum \<Rightarrow> jsnum \<Rightarrow> bool" where
  "js_le a b = (js_lt a b \<or> js_eq a b)"

fun is_finite :: "jsnum \<Rightarrow> bool" where
  "is_finite (Fin s m e) = True"
| "is_finite a = False"

definition yMean :: "point list \<Rightarrow> jsnum" where
  "yMean ps = js_div (reduce_sum (\<lambda>p. y p) ps) (js_of_nat (length ps))"

definition hasYVariation :: "point list \<Rightarrow> bool" where
  "hasYVariation ps =
     list_ex (\<lambda>p. js_gt (js_abs (js_sub (y p) (yMean ps))) (js_decimal 1 10000)) ps"

definition correlation_numerator :: "point list \<Rightarrow> jsnum" where
  "correlation_numerator ps =
     js_sub (js_mul (js_of_nat (length ps)) (reduce_sum (\<lambda>p. js_mul (x p) (y p)) ps))
            (js_mul (reduce_sum (\<lambda>p. x p) ps) (reduce_sum (\<lambda>p. y p) ps))"

definition regression_denominator :: "point list \<Rightarrow> jsnum" where
  "regression_denominator ps =
     js_sub (js_mul (js_of_nat (length ps)) (reduce_sum (\<lambda>p. js_mul (x p) (x p)) ps))
            (js_mul (reduce_sum (\<lambda>p. x p) ps) (reduce_sum (\<lambda>p. x p) ps))"

definition correlation_denominator :: "point list \<Rightarrow> jsnum" where
  "correlation_denominator ps =
     js_sqrt (js_mul (regression_denominator ps)
                (js_sub (js_mul (js_of_nat (length ps))
                           (reduce_sum (\<lambda>p. js_mul (y p) (y p)) ps))
                        (js_mul (reduce_sum (\<lambda>p. y p) ps) (reduce_sum (\<lambda>p. y p) ps))))"

definition finite_points :: "point list \<Rightarrow> bool" where
  "finite_points ps = list_all (\<lambda>p. is_finite (x p) \<and> is_finite (y p)) ps"

definition in_unit_interval :: "jsnum \<Rightarrow> bool" where
  \<comment> \<open>\<open>-1 \<le> r \<le> 1\<close>\<close>
  "in_unit_interval r = (js_le (js_of_int (- 1)) r \<and> js_le r (js_of_int 1))"

text \<open>The locals \<open>x\<close> and \<open>y\<close> of \<open>handlePlotClick\<close>: the coordinates of the click.\<close>

definition click_x :: "click_event \<Rightarrow> jsnum" where
  "click_x ev =
     js_Number (js_toFixed
       (js_sub (js_mul (js_div (js_sub (clientX ev) (rect_left ev)) (rect_width ev))
                       (js_of_int 20))
               (js_of_int 10)) 2)"

definition click_y :: "click_event \<Rightarrow> jsnum" where
  "click_y ev =
     js_Number (js_toFixed
       (js_add (js_mul (js_neg (js_div (js_sub (clientY ev) (rect_top ev)) (rect_height ev)))
                       (js_of_int 20))
               (js_of_int 10)) 2)"

section \<open>Example inputs\<close>

definition points_collinear :: "point list" where
  \<comment> \<open>\<open>(0,0), (1,1), (2,2)\<close>\<close>
  "points_collinear =
     [\<lparr>x = js_of_int 0, y = js_of_int 0\<rparr>,
      \<lparr>x = js_of_int 1, y = js_of_int 1\<rparr>,
      \<lparr>x = js_of_int 2, y = js_of_int 2\<rparr>]"

definition points_constant_y :: "point list" where
  \<comment> \<open>\<open>(0,5), (1,5), (2,5)\<close>\<close>
  "points_constant_y =
     [\<lparr>x = js_of_int 0, y = js_of_int 5\<rparr>,
      \<lparr>x = js_of_int 1, y = js_of_int 5\<rparr>,
      \<lparr>x = js_of_int 2, y = js_of_int 5\<rparr>]"

definition points_identical_x :: "point list" where
  \<comment> \<open>\<open>(3,1), (3,4), (3,9)\<close>\<close>
  "points_identical_x =
     [\<lparr>x = js_of_int 3, y = js_of_int 1\<rparr>,
      \<lparr>x = js_of_int 3, y = js_of_int 4\<rparr>,
      \<lparr>x = js_of_int 3, y = js_of_int 9\<rparr>]"

definition points_nearly_constant_y :: "point list" where
  \<comment> \<open>\<open>(1,2), (2,2), (3,2.0001)\<close>\<close>
  "points_nearly_constant_y =
     [\<lparr>x = js_of_int 1, y = js_of_int 2\<rparr>,
      \<lparr>x = js_of_int 2, y = js_of_int 2\<rparr>,
      \<lparr>x = js_of_int 3, y = js_decimal 20001 10000\<rparr>]"

definition points_tenths :: "point list" where
  \<comment> \<open>\<open>(0,0.5), (0.1,0.6), (0.2,0.7)\<close>, on the line \<open>y = x + 0.5\<close> as decimals\<close>
  "points_tenths =
     [\<lparr>x = js_of_int 0, y = js_decimal 5 10\<rparr>,
      \<lparr>x = js_decimal 1 10, y = js_decimal 6 10\<rparr>,
      \<lparr>x = js_decimal 2 10, y = js_decimal 7 10\<rparr>]"

definition click_quarter_up :: click_event where
  \<comment> \<open>a click on the vertical axis, a quarter of the way down a plot of 600 by 600\<close>
  "click_quarter_up =
     \<lparr>target_is_point = False,
      clientX = js_of_int 300, clientY = js_of_int 150,
      rect_left = js_of_int 0, rect_top = js_of_int 0,
      rect_width = js_of_int 600, rect_height = js_of_int 600\<rparr>"

section \<open>Facts about the numbers\<close>

lemma pow2_pos: "0 < pow2 k"
  by (simp add: pow2_def)

lemma signed_zero_iff: "signed s m = 0 \<longleftrightarrow> m = 0"
  by (simp add: signed_def)

lemma epsilon_value: "js_decimal 1 10000 = Fin False 7378697629483821 (- 66)"
  by code_simp

lemma js_eq_zero_iff: "js_eq (Fin s m e) js_zero \<longleftrightarrow> m = 0"
  using pow2_pos [of "e - min e 0"]
  by (simp add: js_zero_def Let_def signed_def)

lemma zero_below_epsilon: "js_eq d js_zero \<Longrightarrow> js_lt (js_abs d) (js_decimal 1 10000)"
proof (cases d)
  case NaN
  assume "js_eq d js_zero"
  with NaN show ?thesis by (simp add: js_zero_def)
next
  case (Inf s)
  assume "js_eq d js_zero"
  with Inf show ?thesis by (simp add: js_zero_def)
next
  case (Fin s m e)
  assume "js_eq d js_zero"
  with Fin have "m = 0" by (simp add: js_eq_zero_iff)
  moreover have "0 < 7378697629483821 * pow2 (- 66 - min e (- 66))"
    using pow2_pos [of "- 66 - min e (- 66)"] by simp
  ultimately show ?thesis
    using Fin by (simp add: epsilon_value Let_def signed_def)
qed

lemma js_le_not_gt: "js_le a b \<Longrightarrow> \<not> js_gt a b"
proof (cases a)
  case NaN
  assume "js_le a b"
  with NaN show ?thesis by (simp add: js_le_def)
next
  case (Inf s)
  assume "js_le a b"
  with Inf show ?thesis by (cases b) (auto simp: js_le_def js_gt_def)
next
  case (Fin s m e)
  assume "js_le a b"
  with Fin show ?thesis
    by (cases b) (auto simp: js_le_def js_gt_def Let_def min.commute)
qed

lemma js_eq_refl: "a \<noteq> NaN \<Longrightarrow> js_eq a a"
  by (cases a) (simp_all add: Let_def)

section \<open>The rounding is to the nearest double\<close>

text \<open>
  \<open>ilog2\<close> is the binary logarithm rounded down, so \<open>rounding_exponent\<close> is the exponent
  of the doubles around \<open>a / b\<close>; \<open>rounded_significand\<close> is within one half of \<open>a / b\<close> in
  units of that exponent, the even one of two candidates; and \<open>round_ratio\<close> returns that
  multiple, in the shape of a double.
\<close>

lemma pow2_Suc: "0 \<le> k \<Longrightarrow> pow2 (k + 1) = 2 * pow2 k"
  by (simp add: pow2_def nat_add_distrib)

lemma bit_length_nonneg: "0 \<le> bit_length a"
proof (induction a rule: bit_length.induct)
  case (1 a)
  show ?case
  proof (cases "a \<le> 0")
    case True
    then show ?thesis by (simp add: bit_length.simps [of a])
  next
    case False
    with "1.IH" show ?thesis by (simp add: bit_length.simps [of a])
  qed
qed

lemma bit_length_step: "0 < a \<Longrightarrow> bit_length a = bit_length (a div 2) + 1"
  by (simp add: bit_length.simps [of a])

lemma bit_length_bounds:
  "0 < a \<Longrightarrow> pow2 (bit_length a - 1) \<le> a \<and> a < pow2 (bit_length a)"
proof (induction a rule: bit_length.induct)
  case (1 a)
  note bl = bit_length_step [OF "1.prems"]
  show ?case
  proof (cases "a = 1")
    case True
    have "bit_length 1 = 1"
      by (simp add: bit_length.simps [of 1] bit_length.simps [of 0])
    with True show ?thesis by (simp add: pow2_def)
  next
    case False
    with "1.prems" have half: "0 < a div 2" by simp
    with "1.IH" "1.prems" have ih: "pow2 (bit_length (a div 2) - 1) \<le> a div 2"
      "a div 2 < pow2 (bit_length (a div 2))" by simp_all
    have ge: "1 \<le> bit_length (a div 2)"
      using bit_length_step [OF half] bit_length_nonneg [of "a div 2 div 2"] by simp
    have "pow2 (bit_length (a div 2)) = 2 * pow2 (bit_length (a div 2) - 1)"
      using pow2_Suc [of "bit_length (a div 2) - 1"] ge by simp
    with ih(1) have "pow2 (bit_length (a div 2)) \<le> a" by simp
    moreover have "a < pow2 (bit_length (a div 2) + 1)"
      using ih(2) pow2_Suc [of "bit_length (a div 2)"] ge by simp
    ultimately show ?thesis by (simp add: bl)
  qed
qed


lemma pow2_real: "0 \<le> k \<Longrightarrow> real_of_int (pow2 k) = 2 powi k"
  by (simp add: pow2_def power_int_def)

lemma bit_length_real:
  assumes "0 < a"
  shows "2 powi (bit_length a - 1) \<le> real_of_int a" and "real_of_int a < 2 powi (bit_length a)"
proof -
  have ge: "1 \<le> bit_length a"
    using bit_length_step [OF assms] bit_length_nonneg [of "a div 2"] by simp
  from bit_length_bounds [OF assms]
  have "real_of_int (pow2 (bit_length a - 1)) \<le> real_of_int a"
    and "real_of_int a < real_of_int (pow2 (bit_length a))"
    by simp_all
  with ge show "2 powi (bit_length a - 1) \<le> real_of_int a"
    and "real_of_int a < 2 powi (bit_length a)"
    by (simp_all add: pow2_real)
qed

lemma scaled_le_real:
  assumes "0 < b"
  shows "(if 0 \<le> d then b * pow2 d \<le> a else b \<le> a * pow2 (- d)) \<longleftrightarrow>
         2 powi d \<le> real_of_int a / real_of_int b"
proof (cases "0 \<le> d")
  case True
  have "b * pow2 d \<le> a \<longleftrightarrow> real_of_int (b * pow2 d) \<le> real_of_int a"
    by (simp only: of_int_le_iff)
  also have "\<dots> \<longleftrightarrow> 2 powi d * real_of_int b \<le> real_of_int a"
    using True by (simp add: pow2_real mult.commute)
  also have "\<dots> \<longleftrightarrow> 2 powi d \<le> real_of_int a / real_of_int b"
    using assms by (simp add: pos_le_divide_eq)
  finally show ?thesis using True by simp
next
  case False
  then have neg: "0 \<le> - d" by simp
  have inv: "(2::real) powi d * 2 powi (- d) = 1"
    by (simp add: power_int_minus)
  have "b \<le> a * pow2 (- d) \<longleftrightarrow> real_of_int b \<le> real_of_int (a * pow2 (- d))"
    by (simp only: of_int_le_iff)
  also have "\<dots> \<longleftrightarrow> real_of_int b \<le> real_of_int a * 2 powi (- d)"
    using neg by (simp add: pow2_real)
  also have "\<dots> \<longleftrightarrow> 2 powi d * real_of_int b \<le> real_of_int a"
    by (simp add: power_int_minus field_simps)
  also have "\<dots> \<longleftrightarrow> 2 powi d \<le> real_of_int a / real_of_int b"
    using assms by (simp add: pos_le_divide_eq)
  finally show ?thesis using False by simp
qed

lemma powi_div: "(2::real) powi i / 2 powi j = 2 powi (i - j)"
  by (simp add: power_int_diff)

lemma ilog2_correct:
  assumes "0 < a" and "0 < b"
  shows "2 powi (ilog2 a b) \<le> real_of_int a / real_of_int b"
    and "real_of_int a / real_of_int b < 2 powi (ilog2 a b + 1)"
proof -
  define d where "d = bit_length a - bit_length b"
  let ?v = "real_of_int a / real_of_int b"
  have ra: "0 < real_of_int a" and rb: "0 < real_of_int b"
    using assms by simp_all
  have e1: "bit_length a - (bit_length b - 1) = d + 1"
    and e2: "bit_length a - 1 - bit_length b = d - 1"
    by (simp_all add: d_def)
  have "?v < 2 powi (bit_length a) / 2 powi (bit_length b - 1)"
    using bit_length_real(2) [OF assms(1)] bit_length_real(1) [OF assms(2)] ra rb
    by (intro frac_less) simp_all
  also have "\<dots> = 2 powi (d + 1)"
    by (simp only: powi_div e1)
  finally have upper: "?v < 2 powi (d + 1)" .
  have "2 powi (bit_length a - 1) / 2 powi (bit_length b) \<le> ?v"
    using bit_length_real(1) [OF assms(1)] bit_length_real(2) [OF assms(2)] ra rb
    by (intro frac_le) simp_all
  moreover have "2 powi (bit_length a - 1) / 2 powi (bit_length b) = (2::real) powi (d - 1)"
    by (simp only: powi_div e2)
  ultimately have lower: "2 powi (d - 1) \<le> ?v" by simp
  have test: "(if 0 \<le> d then b * pow2 d \<le> a else b \<le> a * pow2 (- d)) \<longleftrightarrow> 2 powi d \<le> ?v"
    using assms(2) by (rule scaled_le_real)
  have il: "ilog2 a b = (if 2 powi d \<le> ?v then d else d - 1)"
    unfolding ilog2_def Let_def d_def [symmetric] test by simp
  show "2 powi (ilog2 a b) \<le> ?v"
    using lower by (simp add: il)
  show "?v < 2 powi (ilog2 a b + 1)"
    using upper by (simp add: il not_le)
qed


lemma round_half_even_nearest:
  assumes "0 < b"
  shows "\<bar>2 * a - 2 * b * round_half_even a b\<bar> \<le> b"
proof -
  define q where "q = a div b"
  define t where "t = a mod b"
  have a: "a = b * q + t"
    by (simp add: q_def t_def)
  have t: "0 \<le> t" "t < b"
    using assms by (simp_all add: t_def)
  have down: "2 * a - 2 * b * q = 2 * t"
    by (simp add: a algebra_simps)
  have up: "2 * a - 2 * b * (q + 1) = 2 * t - 2 * b"
    by (simp add: a algebra_simps)
  have "round_half_even a b = q \<and> 2 * t \<le> b \<or> round_half_even a b = q + 1 \<and> b \<le> 2 * t"
    by (auto simp add: round_half_even_def Let_def q_def t_def)
  then show ?thesis
  proof
    assume "round_half_even a b = q \<and> 2 * t \<le> b"
    with down t show ?thesis by simp
  next
    assume "round_half_even a b = q + 1 \<and> b \<le> 2 * t"
    with up t show ?thesis by simp
  qed
qed

lemma round_half_even_real:
  assumes "0 < b"
  shows "\<bar>real_of_int a / real_of_int b - real_of_int (round_half_even a b)\<bar> \<le> 1 / 2"
proof -
  let ?m = "round_half_even a b"
  have "real_of_int \<bar>2 * a - 2 * b * ?m\<bar> \<le> real_of_int b"
    using round_half_even_nearest [OF assms, of a] by (simp only: of_int_le_iff)
  then have "\<bar>2 * real_of_int a - 2 * real_of_int b * real_of_int ?m\<bar> \<le> real_of_int b"
    by simp
  moreover have "2 * real_of_int a - 2 * real_of_int b * real_of_int ?m =
      2 * real_of_int b * (real_of_int a / real_of_int b - real_of_int ?m)"
    using assms by (simp add: field_simps)
  ultimately have "2 * real_of_int b * \<bar>real_of_int a / real_of_int b - real_of_int ?m\<bar>
      \<le> real_of_int b"
    using assms by (simp add: abs_mult)
  with assms show ?thesis
    by (simp add: field_simps)
qed

lemma scaled_quotient_up:
  "0 \<le> ex \<Longrightarrow>
   real_of_int a / real_of_int (b * pow2 ex) = real_of_int a / real_of_int b / 2 powi ex"
  by (simp add: pow2_real)

lemma scaled_quotient_down:
  assumes "\<not> 0 \<le> ex"
  shows "real_of_int (a * pow2 (- ex)) / real_of_int b =
         real_of_int a / real_of_int b / 2 powi ex"
proof -
  from assms have "0 \<le> - ex" by simp
  then have "real_of_int (pow2 (- ex)) = 2 powi (- ex)" by (rule pow2_real)
  then have p: "real_of_int (pow2 (- ex)) = 1 / 2 powi ex"
    by (simp add: power_int_minus inverse_eq_divide)
  show ?thesis
    by (simp add: p)
qed

lemma rounded_quotient:
  assumes "0 < b"
  shows "\<bar>real_of_int a / real_of_int b / 2 powi ex -
          real_of_int (if 0 \<le> ex then round_half_even a (b * pow2 ex)
                       else round_half_even (a * pow2 (- ex)) b)\<bar> \<le> 1 / 2"
proof (cases "0 \<le> ex")
  case True
  have "0 < b * pow2 ex" using assms pow2_pos [of ex] by simp
  from round_half_even_real [OF this, of a]
  have "\<bar>real_of_int a / real_of_int b / 2 powi ex -
          real_of_int (round_half_even a (b * pow2 ex))\<bar> \<le> 1 / 2"
    by (simp only: scaled_quotient_up [OF True])
  with True show ?thesis by (simp only: if_True)
next
  case False
  from round_half_even_real [OF assms, of "a * pow2 (- ex)"]
  have "\<bar>real_of_int a / real_of_int b / 2 powi ex -
          real_of_int (round_half_even (a * pow2 (- ex)) b)\<bar> \<le> 1 / 2"
    by (simp only: scaled_quotient_down [OF False])
  with False show ?thesis by (simp only: if_False)
qed


lemma round_half_even_tie:
  "0 < b \<Longrightarrow> 2 * (a mod b) = b \<Longrightarrow> even (round_half_even a b)"
  by (simp add: round_half_even_def Let_def)

lemma rounded_significand_near:
  assumes "0 < b"
  shows "\<bar>real_of_int a / real_of_int b / 2 powi (rounding_exponent a b) -
          real_of_int (rounded_significand a b)\<bar> \<le> 1 / 2"
  using rounded_quotient [OF assms, of a "rounding_exponent a b"]
  by (simp add: rounded_significand_def Let_def)

lemma rounding_exponent_binade:
  assumes "0 < a" and "0 < b"
  shows "real_of_int a / real_of_int b / 2 powi (rounding_exponent a b) < 2 powi 53"
    and "rounding_exponent a b = - 1074 \<or>
         2 powi 52 \<le> real_of_int a / real_of_int b / 2 powi (rounding_exponent a b)"
proof -
  let ?v = "real_of_int a / real_of_int b"
  let ?ex = "rounding_exponent a b"
  let ?L = "ilog2 a b"
  have u: "(0::real) < 2 powi ?ex" by simp
  have "?L + 1 - ?ex \<le> 53"
    by (simp add: rounding_exponent_def)
  then have "(2::real) powi (?L + 1 - ?ex) \<le> 2 powi 53"
    by (intro power_int_increasing) simp_all
  moreover have "?v / 2 powi ?ex < 2 powi (?L + 1) / 2 powi ?ex"
    by (rule divide_strict_right_mono [OF ilog2_correct(2) [OF assms] u])
  ultimately show "?v / 2 powi ?ex < 2 powi 53"
    by (simp only: powi_div)
  show "?ex = - 1074 \<or> 2 powi 52 \<le> ?v / 2 powi ?ex"
  proof (cases "?ex = - 1074")
    case True
    then show ?thesis by simp
  next
    case False
    then have ex: "?ex = ?L - 52"
      by (simp add: rounding_exponent_def max_def split: if_splits)
    have "2 powi ?L / 2 powi ?ex \<le> ?v / 2 powi ?ex"
      by (rule divide_right_mono [OF ilog2_correct(1) [OF assms] less_imp_le [OF u]])
    moreover have "?L - ?ex = 52" using ex by simp
    ultimately have "2 powi 52 \<le> ?v / 2 powi ?ex"
      by (simp only: powi_div)
    then show ?thesis by (rule disjI2)
  qed
qed

lemma rounded_significand_bounds:
  assumes "0 < a" and "0 < b"
  shows "0 \<le> rounded_significand a b"
    and "rounded_significand a b \<le> pow2 53"
    and "rounding_exponent a b = - 1074 \<or> pow2 52 \<le> rounded_significand a b"
proof -
  define q where "q = real_of_int a / real_of_int b / 2 powi (rounding_exponent a b)"
  let ?m = "rounded_significand a b"
  have near: "\<bar>q - real_of_int ?m\<bar> \<le> 1 / 2"
    unfolding q_def by (rule rounded_significand_near [OF assms(2)])
  have "0 < q" unfolding q_def using assms by simp
  with near have "- 1 < real_of_int ?m" by linarith
  then have "real_of_int (- 1) < real_of_int ?m" by simp
  then have "- 1 < ?m" by (simp only: of_int_less_iff)
  then show "0 \<le> ?m" by simp
  have "q < 2 powi 53"
    unfolding q_def by (rule rounding_exponent_binade(1) [OF assms])
  with near have "real_of_int ?m < 2 powi 53 + 1" by linarith
  also have "(2::real) powi 53 + 1 = real_of_int (pow2 53 + 1)"
    by (simp add: pow2_real)
  finally have "?m < pow2 53 + 1" by (simp only: of_int_less_iff)
  then show "?m \<le> pow2 53" by simp
  show "rounding_exponent a b = - 1074 \<or> pow2 52 \<le> ?m"
  proof (cases "rounding_exponent a b = - 1074")
    case True
    then show ?thesis by simp
  next
    case False
    with rounding_exponent_binade(2) [OF assms] have "2 powi 52 \<le> q"
      unfolding q_def by simp
    with near have "2 powi 52 - 1 < real_of_int ?m" by linarith
    moreover have "(2::real) powi 52 - 1 = real_of_int (pow2 52 - 1)"
      by (simp add: pow2_real)
    ultimately have "real_of_int (pow2 52 - 1) < real_of_int ?m" by simp
    then have "pow2 52 - 1 < ?m" by (simp only: of_int_less_iff)
    then show ?thesis by simp
  qed
qed

lemma rounding_exponent_ge: "- 1074 \<le> rounding_exponent a b"
  by (simp add: rounding_exponent_def)

lemma round_ratio_canonical:
  assumes "0 \<le> a" and "0 < b"
  shows "canonical (round_ratio s a b)"
proof (cases "a = 0")
  case True
  then show ?thesis by (simp add: round_ratio_def)
next
  case False
  with assms have pos: "0 < a" by simp
  note b = rounded_significand_bounds [OF pos assms(2)]
  have p: "pow2 53 = 2 * pow2 52" "0 < pow2 52"
    by (simp_all add: pow2_def)
  show ?thesis
    using b p rounding_exponent_ge [of a b] False
    by (auto simp add: round_ratio_def Let_def)
qed


lemma round_ratio_sign:
  "round_ratio s a b = Fin t m e \<Longrightarrow> t = s"
  "round_ratio s a b = Inf t \<Longrightarrow> t = s"
  "round_ratio s a b \<noteq> NaN"
  by (auto simp add: round_ratio_def Let_def split: if_splits)

lemma round_ratio_value:
  assumes "a \<noteq> 0" and "round_ratio s a b = Fin t m e"
  shows "real_of_int m * 2 powi e =
         real_of_int (rounded_significand a b) * 2 powi (rounding_exponent a b)"
proof (cases "rounded_significand a b = pow2 53")
  case True
  with assms have "m = pow2 52" and "e = rounding_exponent a b + 1"
    by (auto simp add: round_ratio_def Let_def pow2_def split: if_splits)
  moreover have "real_of_int (pow2 53) = 2 * real_of_int (pow2 52)"
    by (simp add: pow2_def)
  ultimately show ?thesis
    using True by (simp add: power_int_add)
next
  case False
  with assms show ?thesis
    by (auto simp add: round_ratio_def Let_def split: if_splits)
qed

lemma round_ratio_nearest:
  assumes "0 < a" and "0 < b" and "round_ratio s a b = Fin t m e"
  shows "\<bar>real_of_int a / real_of_int b - real_of_int m * 2 powi e\<bar>
         \<le> 2 powi (rounding_exponent a b) / 2"
proof -
  define u :: real where "u = 2 powi (rounding_exponent a b)"
  define v where "v = real_of_int a / real_of_int b"
  define k where "k = real_of_int (rounded_significand a b)"
  have u: "0 < u" by (simp add: u_def)
  from assms(1) have "a \<noteq> 0" by simp
  from round_ratio_value [OF this assms(3)] have val: "real_of_int m * 2 powi e = k * u"
    by (simp add: k_def u_def)
  have "\<bar>v / u - k\<bar> \<le> 1 / 2"
    unfolding v_def u_def k_def by (rule rounded_significand_near [OF assms(2)])
  then have "\<bar>v / u - k\<bar> * u \<le> 1 / 2 * u"
    using u by (intro mult_right_mono) simp_all
  moreover have "\<bar>v / u - k\<bar> * u = \<bar>v - k * u\<bar>"
  proof -
    have "\<bar>v / u - k\<bar> * u = \<bar>(v / u - k) * u\<bar>"
      using u by (simp add: abs_mult)
    also have "(v / u - k) * u = v - k * u"
      using u by (simp add: field_simps)
    finally show ?thesis .
  qed
  ultimately have "\<bar>v - k * u\<bar> \<le> u / 2" by simp
  then show ?thesis
    by (simp only: val v_def [symmetric] u_def [symmetric])
qed

lemma round_ratio_overflow:
  assumes "0 < a" and "0 < b" and "round_ratio s a b = Inf t"
  shows "2 powi 1024 - 2 powi 970 \<le> real_of_int a / real_of_int b"
proof -
  define ex where "ex = rounding_exponent a b"
  define q where "q = real_of_int a / real_of_int b / 2 powi ex"
  define k where "k = rounded_significand a b"
  have v: "real_of_int a / real_of_int b = q * 2 powi ex"
    by (simp add: q_def)
  have near: "\<bar>q - real_of_int k\<bar> \<le> 1 / 2"
    unfolding q_def k_def ex_def by (rule rounded_significand_near [OF assms(2)])
  from assms(1,3) have over: "971 < (if k = pow2 53 then ex + 1 else ex)"
    by (auto simp add: round_ratio_def Let_def k_def ex_def split: if_splits)
  show ?thesis
  proof (cases "k = pow2 53")
    case True
    with over have ex: "971 \<le> ex" by simp
    have "real_of_int k = 2 powi 53"
      by (simp add: True pow2_real)
    with near have "2 powi 53 - 1 / 2 \<le> q" by linarith
    then have "(2 powi 53 - 1 / 2) * 2 powi ex \<le> q * 2 powi ex"
      by (intro mult_right_mono) simp_all
    moreover have "(2 powi 53 - 1 / 2) * 2 powi 971 \<le> (2 powi 53 - 1 / 2) * (2::real) powi ex"
      using ex by (intro mult_left_mono power_int_increasing) simp_all
    moreover have "(2 powi 53 - 1 / 2) * (2::real) powi 971 = 2 powi 1024 - 2 powi 970"
      by (simp add: power_int_def)
    ultimately show ?thesis
      by (simp only: v)
  next
    case False
    with over have ex: "972 \<le> ex" by simp
    then have "rounding_exponent a b \<noteq> - 1074" by (simp add: ex_def)
    with rounding_exponent_binade(2) [OF assms(1,2)] have "2 powi 52 \<le> q"
      by (simp add: q_def ex_def)
    then have "2 powi 52 * 2 powi ex \<le> q * 2 powi ex"
      by (intro mult_right_mono) simp_all
    moreover have "2 powi 52 * 2 powi 972 \<le> 2 powi 52 * (2::real) powi ex"
      using ex by (intro mult_left_mono power_int_increasing) simp_all
    moreover have "2 powi 52 * (2::real) powi 972 = 2 powi 1024"
      by (simp add: power_int_def)
    moreover have "(2::real) powi 1024 - 2 powi 970 \<le> 2 powi 1024"
      by simp
    ultimately show ?thesis
      by (simp only: v)
  qed
qed

lemma round_scaled_canonical:
  "0 \<le> a \<Longrightarrow> 0 < b \<Longrightarrow> canonical (round_scaled s a b k)"
  using pow2_pos [of k] pow2_pos [of "- k"]
  by (simp add: round_scaled_def round_ratio_canonical)

lemma isqrt_bits_nonneg: "0 \<le> r \<Longrightarrow> 0 \<le> isqrt_bits k r v"
  by (induction k arbitrary: r) (simp_all add: Let_def)

lemma canonical_nonneg: "canonical (Fin s m e) \<Longrightarrow> 0 \<le> m"
  by auto

lemma canonical_zero: "canonical (Fin s 0 e) \<Longrightarrow> e = 0"
  by simp

lemma js_neg_canonical: "canonical a \<Longrightarrow> canonical (js_neg a)"
  by (cases a) simp_all

lemma js_abs_canonical: "canonical a \<Longrightarrow> canonical (js_abs a)"
  by (cases a) simp_all

lemma js_add_canonical: "canonical (js_add a b)"
proof (cases a)
  case (Fin s1 m1 e1)
  show ?thesis
  proof (cases b)
    case (Fin s2 m2 e2)
    with \<open>a = Fin s1 m1 e1\<close> show ?thesis
      by (simp add: Let_def round_scaled_canonical)
  qed (simp_all add: \<open>a = Fin s1 m1 e1\<close>)
next
  case NaN
  then show ?thesis by simp
next
  case (Inf s)
  then show ?thesis by (cases b) simp_all
qed

lemma js_sub_canonical: "canonical (js_sub a b)"
  by (simp add: js_sub_def js_add_canonical)

lemma js_mul_canonical:
  assumes "canonical a" and "canonical b"
  shows "canonical (js_mul a b)"
proof (cases a)
  case (Fin s1 m1 e1)
  show ?thesis
  proof (cases b)
    case (Fin s2 m2 e2)
    from assms have "0 \<le> m1 * m2"
      unfolding \<open>a = Fin s1 m1 e1\<close> Fin by (intro mult_nonneg_nonneg) auto
    then show ?thesis
      by (simp add: \<open>a = Fin s1 m1 e1\<close> Fin round_scaled_canonical)
  qed (simp_all add: \<open>a = Fin s1 m1 e1\<close>)
next
  case NaN
  then show ?thesis by simp
next
  case (Inf s)
  then show ?thesis by (cases b) simp_all
qed

lemma js_div_canonical:
  assumes "canonical a" and "canonical b"
  shows "canonical (js_div a b)"
proof (cases a)
  case (Fin s1 m1 e1)
  show ?thesis
  proof (cases b)
    case (Fin s2 m2 e2)
    from assms have "0 \<le> m1" "0 \<le> m2"
      unfolding \<open>a = Fin s1 m1 e1\<close> Fin by auto
    then show ?thesis
      by (simp add: \<open>a = Fin s1 m1 e1\<close> Fin round_scaled_canonical)
  qed (simp_all add: \<open>a = Fin s1 m1 e1\<close>)
next
  case NaN
  then show ?thesis by simp
next
  case (Inf s)
  then show ?thesis by (cases b) simp_all
qed

lemma js_sqrt_canonical:
  assumes "canonical a"
  shows "canonical (js_sqrt a)"
proof (cases a)
  case (Fin s m e)
  show ?thesis
  proof (cases "m = 0")
    case True
    with assms Fin show ?thesis by simp
  next
    case False
    have r: "0 \<le> isqrt_bits 81 0 w" for w
      by (rule isqrt_bits_nonneg) simp
    then have "0 \<le> 2 * isqrt_bits 81 0 w + 1" for w
      using r [of w] by simp
    with r False show ?thesis
      unfolding Fin by (simp add: Let_def round_scaled_canonical del: canonical.simps(1))
  qed
qed simp_all

lemma js_of_int_canonical: "canonical (js_of_int i)"
  by (simp add: js_of_int_def round_ratio_canonical)

lemma js_decimal_canonical: "0 < b \<Longrightarrow> canonical (js_decimal a b)"
  by (simp add: js_decimal_def round_ratio_canonical)

section \<open>The integer square root\<close>

lemma isqrt_bits_floor:
  "0 \<le> r \<Longrightarrow> r * r \<le> v \<Longrightarrow> v < (r + 2 ^ k) * (r + 2 ^ k) \<Longrightarrow>
   isqrt_bits k r v * isqrt_bits k r v \<le> v \<and>
   v < (isqrt_bits k r v + 1) * (isqrt_bits k r v + 1)"
proof (induction k arbitrary: r)
  case 0
  then show ?case by simp
next
  case (Suc k)
  show ?case
  proof (cases "(r + 2 ^ k) * (r + 2 ^ k) \<le> v")
    case True
    have eq: "r + 2 ^ k + 2 ^ k = r + 2 ^ Suc k" by simp
    from Suc.prems(3) have "v < (r + 2 ^ k + 2 ^ k) * (r + 2 ^ k + 2 ^ k)"
      by (simp only: eq)
    moreover from Suc.prems(1) have "0 \<le> r + 2 ^ k" by simp
    ultimately have "isqrt_bits k (r + 2 ^ k) v * isqrt_bits k (r + 2 ^ k) v \<le> v \<and>
        v < (isqrt_bits k (r + 2 ^ k) v + 1) * (isqrt_bits k (r + 2 ^ k) v + 1)"
      using True by (rule Suc.IH [rotated 2])
    with True show ?thesis
      by (simp add: Let_def)
  next
    case False
    then have "v < (r + 2 ^ k) * (r + 2 ^ k)" by simp
    with Suc.prems(1,2)
    have "isqrt_bits k r v * isqrt_bits k r v \<le> v \<and>
        v < (isqrt_bits k r v + 1) * (isqrt_bits k r v + 1)"
      by (rule Suc.IH)
    with False show ?thesis
      by (simp add: Let_def)
  qed
qed

lemma isqrt_bits_floor_sqrt:
  assumes "0 \<le> v" and "v < 4 ^ k"
  shows "isqrt_bits k 0 v * isqrt_bits k 0 v \<le> v \<and>
         v < (isqrt_bits k 0 v + 1) * (isqrt_bits k 0 v + 1)"
proof -
  have "(2::int) ^ k * 2 ^ k = 4 ^ k"
    by (simp add: power_mult_distrib [symmetric])
  with assms show ?thesis
    using isqrt_bits_floor [of 0 v k] by simp
qed

section \<open>Landmarks of double arithmetic\<close>

lemma double_one: "js_of_int 1 = Fin False 4503599627370496 (- 52)"
  by code_simp

lemma tenth_plus_fifth:
  "js_add (js_decimal 1 10) (js_decimal 2 10) = Fin False 5404319552844596 (- 54) \<and>
   js_decimal 3 10 = Fin False 5404319552844595 (- 54)"
  by code_simp

lemma two_to_53_plus_one:
  "js_add (js_of_int 9007199254740992) (js_of_int 1) = js_of_int 9007199254740992"
  by code_simp

lemma sqrt_two: "js_sqrt (js_of_int 2) = Fin False 6369051672525773 (- 52)"
  by code_simp

lemma division_by_zero:
  "js_div js_zero js_zero = NaN \<and> js_div (js_of_int 1) js_zero = Inf False \<and>
   js_div (js_of_int 1) (js_neg js_zero) = Inf True"
  by code_simp

lemma zeros_and_NaN:
  "js_eq (js_neg js_zero) js_zero \<and> js_neg js_zero \<noteq> js_zero \<and> \<not> js_eq NaN NaN"
  by code_simp

lemma infinity_minus_infinity: "js_sub (Inf False) (Inf False) = NaN"
  by code_simp

lemma toFixed_examples:
  "js_toFixed (js_decimal 1 8) 2 = Str ''0.13'' \<and>
   js_toFixed (js_decimal (- 12345) 1000) 2 = Str ''-12.35'' \<and>
   js_toFixed (js_decimal (- 1) 1000) 2 = Str ''-0.00'' \<and>
   js_Number (Str ''-12.35'') = js_decimal (- 1235) 100 \<and>
   js_Number (Str ''-0.00'') = js_neg js_zero"
  by code_simp

section \<open>How the two functions branch\<close>

lemma correlation_short:
  "length ps < 3 \<Longrightarrow>
   calculateCorrelation ps =
     \<lparr>correlation_result.correlation = None, correlation_result.steps = None\<rparr>"
  by (simp add: calculateCorrelation_def)

lemma regression_short:
  "length ps < 3 \<Longrightarrow> calculateRegression ps = \<lparr>line = None, steps = None\<rparr>"
  by (simp add: calculateRegression_def)

lemma correlation_no_variation:
  "3 \<le> length ps \<Longrightarrow> \<not> hasYVariation ps \<Longrightarrow>
   calculateCorrelation ps =
     \<lparr>correlation_result.correlation = Some js_zero, correlation_result.steps = None\<rparr>"
  by (simp add: calculateCorrelation_def hasYVariation_def yMean_def Let_def)

lemma correlation_small_denominator:
  "3 \<le> length ps \<Longrightarrow> hasYVariation ps \<Longrightarrow>
   js_lt (js_abs (correlation_denominator ps)) (js_decimal 1 10000) \<Longrightarrow>
   calculateCorrelation ps =
     \<lparr>correlation_result.correlation = Some js_zero, correlation_result.steps = None\<rparr>"
  by (simp add: calculateCorrelation_def hasYVariation_def yMean_def Let_def
      correlation_denominator_def regression_denominator_def)

lemma correlation_quotient:
  "3 \<le> length ps \<Longrightarrow> hasYVariation ps \<Longrightarrow>
   \<not> js_lt (js_abs (correlation_denominator ps)) (js_decimal 1 10000) \<Longrightarrow>
   correlation_result.correlation (calculateCorrelation ps) =
     Some (js_div (correlation_numerator ps) (correlation_denominator ps))"
  using zero_below_epsilon [of "correlation_denominator ps"]
  by (auto simp add: calculateCorrelation_def hasYVariation_def yMean_def Let_def
      correlation_denominator_def regression_denominator_def correlation_numerator_def)

lemma regression_vertical:
  "3 \<le> length ps \<Longrightarrow> js_eq (regression_denominator ps) js_zero \<Longrightarrow>
   calculateRegression ps = \<lparr>line = None, steps = None\<rparr>"
  by (simp add: calculateRegression_def regression_denominator_def Let_def)

lemma regression_line_value:
  "3 \<le> length ps \<Longrightarrow> \<not> js_eq (regression_denominator ps) js_zero \<Longrightarrow>
   line (calculateRegression ps) =
     Some \<lparr>regression_line.slope =
             js_div (correlation_numerator ps) (regression_denominator ps),
           regression_line.intercept =
             js_div (js_sub (reduce_sum (\<lambda>p. y p) ps)
                       (js_mul (js_div (correlation_numerator ps) (regression_denominator ps))
                          (reduce_sum (\<lambda>p. x p) ps)))
                    (js_of_nat (length ps))\<rparr>"
  by (simp add: calculateRegression_def regression_denominator_def Let_def
      correlation_numerator_def)

section \<open>The examples, evaluated\<close>

lemma collinear_regression_denominator:
  "\<not> js_eq (regression_denominator points_collinear) js_zero"
  by code_simp

lemma identical_x_regression_denominator:
  "js_eq (regression_denominator points_identical_x) js_zero"
  by code_simp

lemma identical_x_has_variation: "hasYVariation points_identical_x"
  by code_simp

lemma identical_x_correlation_denominator:
  "js_lt (js_abs (correlation_denominator points_identical_x)) (js_decimal 1 10000)"
  by code_simp

lemma tenths_has_variation: "hasYVariation points_tenths"
  by code_simp

lemma tenths_correlation_denominator:
  "\<not> js_lt (js_abs (correlation_denominator points_tenths)) (js_decimal 1 10000)"
  by code_simp

lemma tenths_trace:
  "reduce_sum (\<lambda>p. x p) points_tenths = Fin False 5404319552844596 (- 54) \<and>
   reduce_sum (\<lambda>p. y p) points_tenths = Fin False 8106479329266893 (- 52) \<and>
   reduce_sum (\<lambda>p. js_mul (x p) (y p)) points_tenths = Fin False 7205759403792793 (- 55) \<and>
   reduce_sum (\<lambda>p. js_mul (x p) (x p)) points_tenths = Fin False 7205759403792795 (- 57) \<and>
   reduce_sum (\<lambda>p. js_mul (y p) (y p)) points_tenths = Fin False 4953959590107545 (- 52) \<and>
   correlation_numerator points_tenths = Fin False 8646911284551328 (- 57) \<and>
   regression_denominator points_tenths = Fin False 8646911284551352 (- 57) \<and>
   correlation_denominator points_tenths = Fin False 8646911284551324 (- 57)"
  by code_simp

text \<open>
  The square root in that denominator is of the double \<open>8301034833169244 * 2 ^ (- 61)\<close>;
  the double returned for it is within half a unit in the last place of the real square
  root, since the squares of its two neighbouring midpoints enclose the argument.
\<close>

lemma tenths_square_root:
  "js_sqrt (Fin False 8301034833169244 (- 61)) = Fin False 8646911284551324 (- 57) \<and>
   (2 * 8646911284551324 - 1) * (2 * 8646911284551324 - 1) < 8301034833169244 * pow2 55 \<and>
   8301034833169244 * pow2 55 < (2 * 8646911284551324 + 1) * (2 * 8646911284551324 + 1)"
  by code_simp

lemma tenths_quotient:
  "js_div (correlation_numerator points_tenths) (correlation_denominator points_tenths) =
   Fin False 4503599627370498 (- 52)"
  by code_simp

section \<open>Too few points\<close>

text \<open>
  C1. With fewer than three points \<open>calculateCorrelation\<close> returns its two fields null and
  \<open>calculateRegression\<close> returns \<open>line\<close> and \<open>steps\<close> null. The first field is called
  \<open>correlation\<close> in the source.
\<close>

theorem fewer_than_three_points_null:
  "length ps < 3 \<Longrightarrow>
   calculateCorrelation ps =
     \<lparr>correlation_result.correlation = None, correlation_result.steps = None\<rparr> \<and>
   calculateRegression ps = \<lparr>line = None, steps = None\<rparr>"
  by (simp add: correlation_short regression_short)

theorem fewer_than_three_points_null_witness:
  "length [\<lparr>x = js_of_int 1, y = js_of_int 2\<rparr>, \<lparr>x = js_of_int 3, y = js_of_int 4\<rparr>] < 3 \<and>
   calculateCorrelation [\<lparr>x = js_of_int 1, y = js_of_int 2\<rparr>, \<lparr>x = js_of_int 3, y = js_of_int 4\<rparr>] =
     \<lparr>correlation_result.correlation = None, correlation_result.steps = None\<rparr> \<and>
   calculateRegression [\<lparr>x = js_of_int 1, y = js_of_int 2\<rparr>, \<lparr>x = js_of_int 3, y = js_of_int 4\<rparr>] =
     \<lparr>line = None, steps = None\<rparr>"
proof -
  have short: "length [\<lparr>x = js_of_int 1, y = js_of_int 2\<rparr>, \<lparr>x = js_of_int 3, y = js_of_int 4\<rparr>] < 3"
    by simp
  from fewer_than_three_points_null [OF short] short show ?thesis
    by blast
qed

section \<open>The regression line\<close>

text \<open>
  C2. For at least three points, with \<open>n\<close> the number of points and the sums taken by
  \<open>reduce\<close> in one pass each: when \<open>n * \<Sigma>x\<^sup>2 - \<Sigma>x * \<Sigma>x\<close> is not \<open>=== 0\<close>, the line has
  slope \<open>(n * \<Sigma>xy - \<Sigma>x * \<Sigma>y) / (n * \<Sigma>x\<^sup>2 - \<Sigma>x * \<Sigma>x)\<close> and intercept
  \<open>(\<Sigma>y - slope * \<Sigma>x) / n\<close>, every operation being the one of doubles; when it is
  \<open>=== 0\<close>, the result is \<open>{ line: null, steps: null }\<close>.
\<close>

theorem regression_slope_intercept:
  assumes "3 \<le> length ps"
  shows "(\<not> js_eq (js_sub (js_mul (js_of_nat (length ps))
                             (reduce_sum (\<lambda>p. js_mul (x p) (x p)) ps))
                          (js_mul (reduce_sum (\<lambda>p. x p) ps) (reduce_sum (\<lambda>p. x p) ps)))
                  js_zero \<longrightarrow>
          (\<exists>l. line (calculateRegression ps) = Some l \<and>
             regression_line.slope l =
               js_div (js_sub (js_mul (js_of_nat (length ps))
                                 (reduce_sum (\<lambda>p. js_mul (x p) (y p)) ps))
                              (js_mul (reduce_sum (\<lambda>p. x p) ps) (reduce_sum (\<lambda>p. y p) ps)))
                      (js_sub (js_mul (js_of_nat (length ps))
                                 (reduce_sum (\<lambda>p. js_mul (x p) (x p)) ps))
                              (js_mul (reduce_sum (\<lambda>p. x p) ps) (reduce_sum (\<lambda>p. x p) ps))) \<and>
             regression_line.intercept l =
               js_div (js_sub (reduce_sum (\<lambda>p. y p) ps)
                              (js_mul (regression_line.slope l) (reduce_sum (\<lambda>p. x p) ps)))
                      (js_of_nat (length ps)))) \<and>
         (js_eq (js_sub (js_mul (js_of_nat (length ps))
                           (reduce_sum (\<lambda>p. js_mul (x p) (x p)) ps))
                        (js_mul (reduce_sum (\<lambda>p. x p) ps) (reduce_sum (\<lambda>p. x p) ps)))
                js_zero \<longrightarrow>
          calculateRegression ps = \<lparr>line = None, steps = None\<rparr>)"
proof (intro conjI impI)
  assume "\<not> js_eq (js_sub (js_mul (js_of_nat (length ps))
                             (reduce_sum (\<lambda>p. js_mul (x p) (x p)) ps))
                          (js_mul (reduce_sum (\<lambda>p. x p) ps) (reduce_sum (\<lambda>p. x p) ps)))
                  js_zero"
  then have "\<not> js_eq (regression_denominator ps) js_zero"
    by (simp add: regression_denominator_def)
  from regression_line_value [OF assms this] show "\<exists>l. line (calculateRegression ps) = Some l \<and>
             regression_line.slope l =
               js_div (js_sub (js_mul (js_of_nat (length ps))
                                 (reduce_sum (\<lambda>p. js_mul (x p) (y p)) ps))
                              (js_mul (reduce_sum (\<lambda>p. x p) ps) (reduce_sum (\<lambda>p. y p) ps)))
                      (js_sub (js_mul (js_of_nat (length ps))
                                 (reduce_sum (\<lambda>p. js_mul (x p) (x p)) ps))
                              (js_mul (reduce_sum (\<lambda>p. x p) ps) (reduce_sum (\<lambda>p. x p) ps))) \<and>
             regression_line.intercept l =
               js_div (js_sub (reduce_sum (\<lambda>p. y p) ps)
                              (js_mul (regression_line.slope l) (reduce_sum (\<lambda>p. x p) ps)))
                      (js_of_nat (length ps))"
    by (simp add: regression_denominator_def correlation_numerator_def)
next
  assume "js_eq (js_sub (js_mul (js_of_nat (length ps))
                           (reduce_sum (\<lambda>p. js_mul (x p) (x p)) ps))
                        (js_mul (reduce_sum (\<lambda>p. x p) ps) (reduce_sum (\<lambda>p. x p) ps)))
                js_zero"
  then have "js_eq (regression_denominator ps) js_zero"
    by (simp add: regression_denominator_def)
  from regression_vertical [OF assms this]
  show "calculateRegression ps = \<lparr>line = None, steps = None\<rparr>" .
qed

theorem regression_slope_intercept_witness:
  "3 \<le> length points_collinear \<and>
   \<not> js_eq (regression_denominator points_collinear) js_zero \<and>
   (\<exists>l. line (calculateRegression points_collinear) = Some l \<and>
      regression_line.slope l =
        js_div (correlation_numerator points_collinear)
               (regression_denominator points_collinear)) \<and>
   3 \<le> length points_identical_x \<and>
   js_eq (regression_denominator points_identical_x) js_zero \<and>
   calculateRegression points_identical_x = \<lparr>line = None, steps = None\<rparr>"
proof -
  have len1: "3 \<le> length points_collinear"
    by (simp add: points_collinear_def)
  have len2: "3 \<le> length points_identical_x"
    by (simp add: points_identical_x_def)
  note nz = collinear_regression_denominator
  note z = identical_x_regression_denominator
  from regression_slope_intercept [OF len1] nz
  have "\<exists>l. line (calculateRegression points_collinear) = Some l \<and>
      regression_line.slope l =
        js_div (correlation_numerator points_collinear)
               (regression_denominator points_collinear)"
    unfolding regression_denominator_def correlation_numerator_def by blast
  moreover from regression_slope_intercept [OF len2] z
  have "calculateRegression points_identical_x = \<lparr>line = None, steps = None\<rparr>"
    unfolding regression_denominator_def by blast
  ultimately show ?thesis
    using len1 len2 nz z by blast
qed

section \<open>The two guards of the correlation\<close>

text \<open>
  C3. For at least three points that pass the check of variation in \<open>y\<close>, if the
  absolute value of \<open>denominator = sqrt((n * \<Sigma>x\<^sup>2 - \<Sigma>x * \<Sigma>x) * (n * \<Sigma>y\<^sup>2 - \<Sigma>y * \<Sigma>y))\<close> is
  below \<open>0.0001\<close>, the result is \<open>{ correlation: 0, steps: null }\<close>. For
  \<open>(3,1), (3,4), (3,9)\<close> the coefficient is \<open>0\<close>, by this guard, and the regression line is
  null.
\<close>

theorem near_zero_denominator_guard:
  "(3 \<le> length ps \<and> hasYVariation ps \<and>
    js_lt (js_abs (correlation_denominator ps)) (js_decimal 1 10000) \<longrightarrow>
    calculateCorrelation ps =
      \<lparr>correlation_result.correlation = Some js_zero, correlation_result.steps = None\<rparr>) \<and>
   hasYVariation points_identical_x \<and>
   calculateCorrelation points_identical_x =
     \<lparr>correlation_result.correlation = Some js_zero, correlation_result.steps = None\<rparr> \<and>
   line (calculateRegression points_identical_x) = None"
proof -
  have len: "3 \<le> length points_identical_x"
    by (simp add: points_identical_x_def)
  have "calculateCorrelation points_identical_x =
     \<lparr>correlation_result.correlation = Some js_zero, correlation_result.steps = None\<rparr>"
    by (rule correlation_small_denominator
        [OF len identical_x_has_variation identical_x_correlation_denominator])
  moreover have "line (calculateRegression points_identical_x) = None"
    by (simp add: regression_vertical [OF len identical_x_regression_denominator])
  ultimately show ?thesis
    using identical_x_has_variation by (simp add: correlation_small_denominator)
qed

theorem near_zero_denominator_guard_witness:
  "3 \<le> length points_identical_x \<and> hasYVariation points_identical_x \<and>
   js_lt (js_abs (correlation_denominator points_identical_x)) (js_decimal 1 10000) \<and>
   calculateCorrelation points_identical_x =
     \<lparr>correlation_result.correlation = Some js_zero, correlation_result.steps = None\<rparr>"
proof -
  have len: "3 \<le> length points_identical_x"
    by (simp add: points_identical_x_def)
  from near_zero_denominator_guard [of points_identical_x]
    len identical_x_has_variation identical_x_correlation_denominator
  show ?thesis by blast
qed

text \<open>
  C4. For at least three points, if every \<open>y\<close> is within \<open>0.0001\<close> of \<open>yMean = \<Sigma>y / n\<close>,
  that is \<open>\<bar>y - yMean\<bar> \<le> 0.0001\<close> in doubles, the result is
  \<open>{ correlation: 0, steps: null }\<close>.
\<close>

theorem constant_y_guard:
  assumes "3 \<le> length ps"
    and "\<forall>p \<in> set ps. js_le (js_abs (js_sub (y p) (yMean ps))) (js_decimal 1 10000)"
  shows "calculateCorrelation ps =
     \<lparr>correlation_result.correlation = Some js_zero, correlation_result.steps = None\<rparr>"
proof -
  from assms(2) have "\<not> hasYVariation ps"
    by (auto simp: hasYVariation_def list_ex_iff dest: js_le_not_gt)
  with assms(1) show ?thesis
    by (rule correlation_no_variation)
qed

theorem constant_y_guard_witness:
  "3 \<le> length points_nearly_constant_y \<and>
   list_all (\<lambda>p. js_le (js_abs (js_sub (y p) (yMean points_nearly_constant_y)))
                    (js_decimal 1 10000)) points_nearly_constant_y \<and>
   calculateCorrelation points_nearly_constant_y =
     \<lparr>correlation_result.correlation = Some js_zero, correlation_result.steps = None\<rparr>"
proof -
  have len: "3 \<le> length points_nearly_constant_y"
    by (simp add: points_nearly_constant_y_def)
  have all: "list_all (\<lambda>p. js_le (js_abs (js_sub (y p) (yMean points_nearly_constant_y)))
                      (js_decimal 1 10000)) points_nearly_constant_y"
    by code_simp
  then have near: "\<forall>p \<in> set points_nearly_constant_y.
      js_le (js_abs (js_sub (y p) (yMean points_nearly_constant_y))) (js_decimal 1 10000)"
    by (simp add: list_all_iff)
  from constant_y_guard [OF len near] len all show ?thesis
    by blast
qed

section \<open>The coefficient\<close>

text \<open>
  C5, as the specification states it, fails: for \<open>(0,0.5), (0.1,0.6), (0.2,0.7)\<close>, three
  finite points that pass both guards, the coefficient is the double
  \<open>4503599627370498 * 2 ^ (- 52) = 1.0000000000000004\<close>, above \<open>1\<close>.
\<close>

theorem coefficient_outside_unit_interval:
  "3 \<le> length points_tenths \<and> finite_points points_tenths \<and>
   hasYVariation points_tenths \<and>
   \<not> js_lt (js_abs (correlation_denominator points_tenths)) (js_decimal 1 10000) \<and>
   correlation_result.correlation (calculateCorrelation points_tenths) =
     Some (Fin False 4503599627370498 (- 52)) \<and>
   js_lt (js_of_int 1) (Fin False 4503599627370498 (- 52)) \<and>
   \<not> in_unit_interval (Fin False 4503599627370498 (- 52))"
proof -
  have "3 \<le> length points_tenths"
    by (simp add: points_tenths_def)
  moreover have "finite_points points_tenths"
    by code_simp
  moreover have "correlation_result.correlation (calculateCorrelation points_tenths) =
     Some (Fin False 4503599627370498 (- 52))"
    by code_simp
  moreover have "js_lt (js_of_int 1) (Fin False 4503599627370498 (- 52))"
    by code_simp
  moreover have "\<not> in_unit_interval (Fin False 4503599627370498 (- 52))"
    by code_simp
  ultimately show ?thesis
    using tenths_has_variation tenths_correlation_denominator by blast
qed

text \<open>
  C5, amended. For at least three points that pass both guards, the coefficient is
  \<open>numerator / denominator\<close>, the quotient of doubles, returned as it is: nothing clamps
  it, and nothing is stated of its range.
\<close>

theorem coefficient_is_unclamped_quotient:
  assumes "3 \<le> length ps"
    and "hasYVariation ps"
    and "\<not> js_lt (js_abs (correlation_denominator ps)) (js_decimal 1 10000)"
  shows "correlation_result.correlation (calculateCorrelation ps) =
     Some (js_div (correlation_numerator ps) (correlation_denominator ps))"
  using assms by (rule correlation_quotient)

theorem coefficient_is_unclamped_quotient_witness:
  "3 \<le> length points_tenths \<and> hasYVariation points_tenths \<and>
   \<not> js_lt (js_abs (correlation_denominator points_tenths)) (js_decimal 1 10000) \<and>
   correlation_result.correlation (calculateCorrelation points_tenths) =
     Some (Fin False 4503599627370498 (- 52))"
proof -
  have len: "3 \<le> length points_tenths"
    by (simp add: points_tenths_def)
  from coefficient_is_unclamped_quotient
    [OF len tenths_has_variation tenths_correlation_denominator]
  have "correlation_result.correlation (calculateCorrelation points_tenths) =
     Some (Fin False 4503599627370498 (- 52))"
    by (simp only: tenths_quotient)
  with len tenths_has_variation tenths_correlation_denominator show ?thesis
    by blast
qed

text \<open>
  C10. The coefficient is null exactly when there are fewer than three points. For at
  least three points (finite or not) it is a number: \<open>0\<close> from one of the two guards, or
  \<open>numerator / denominator\<close>; the test \<open>denominator === 0\<close> of the last line never holds
  there.
\<close>

theorem coefficient_null_only_when_short:
  "(correlation_result.correlation (calculateCorrelation ps) = None \<longleftrightarrow> length ps < 3) \<and>
   (3 \<le> length ps \<longrightarrow>
    correlation_result.correlation (calculateCorrelation ps) =
      Some (if hasYVariation ps
            then if js_lt (js_abs (correlation_denominator ps)) (js_decimal 1 10000)
                 then js_zero
                 else js_div (correlation_numerator ps) (correlation_denominator ps)
            else js_zero))"
proof -
  have long: "correlation_result.correlation (calculateCorrelation ps) =
      Some (if hasYVariation ps
            then if js_lt (js_abs (correlation_denominator ps)) (js_decimal 1 10000)
                 then js_zero
                 else js_div (correlation_numerator ps) (correlation_denominator ps)
            else js_zero)" if "3 \<le> length ps"
    using that
    by (simp add: correlation_no_variation correlation_small_denominator
        correlation_quotient)
  have "correlation_result.correlation (calculateCorrelation ps) = None" if "length ps < 3"
    using that by (simp add: correlation_short)
  moreover have "correlation_result.correlation (calculateCorrelation ps) \<noteq> None"
    if "\<not> length ps < 3"
    using that long by simp
  ultimately show ?thesis
    using long by blast
qed

theorem coefficient_null_only_when_short_witness:
  "3 \<le> length points_identical_x \<and>
   correlation_result.correlation (calculateCorrelation points_identical_x) = Some js_zero \<and>
   correlation_result.correlation (calculateCorrelation points_identical_x) \<noteq> None"
proof -
  have len: "3 \<le> length points_identical_x"
    by (simp add: points_identical_x_def)
  from coefficient_null_only_when_short [of points_identical_x] len
  have "correlation_result.correlation (calculateCorrelation points_identical_x) =
      Some (if hasYVariation points_identical_x
            then if js_lt (js_abs (correlation_denominator points_identical_x))
                      (js_decimal 1 10000)
                 then js_zero
                 else js_div (correlation_numerator points_identical_x)
                        (correlation_denominator points_identical_x)
            else js_zero)"
    by blast
  then have "correlation_result.correlation (calculateCorrelation points_identical_x) =
      Some js_zero"
    by (simp only: identical_x_has_variation identical_x_correlation_denominator if_True)
  with len show ?thesis
    by simp
qed

section \<open>The two examples of the specification\<close>

text \<open>
  C6. For \<open>(0,0), (1,1), (2,2)\<close> the coefficient is the double \<open>1\<close>, the slope is the
  double \<open>1\<close> and the intercept is \<open>+0\<close>.
\<close>

theorem collinear_example:
  "correlation_result.correlation (calculateCorrelation points_collinear) =
     Some (js_of_int 1) \<and>
   line (calculateRegression points_collinear) =
     Some \<lparr>regression_line.slope = js_of_int 1,
           regression_line.intercept = js_of_int 0\<rparr>"
  by code_simp

text \<open>
  C7. For \<open>(0,5), (1,5), (2,5)\<close> the check of variation in \<open>y\<close> fails, so the coefficient
  is \<open>0\<close>; the regression line has slope \<open>0\<close> and intercept \<open>5\<close>.
\<close>

theorem constant_y_example:
  "hasYVariation points_constant_y = False \<and>
   calculateCorrelation points_constant_y =
     \<lparr>correlation_result.correlation = Some (js_of_int 0),
      correlation_result.steps = None\<rparr> \<and>
   line (calculateRegression points_constant_y) =
     Some \<lparr>regression_line.slope = js_of_int 0,
           regression_line.intercept = js_of_int 5\<rparr>"
  by code_simp

section \<open>Clicks and recomputation\<close>

lemma pointExists_iff:
  "pointExists ps a b \<longleftrightarrow> (\<exists>p \<in> set ps. js_eq (x p) a \<and> js_eq (y p) b)"
  by (simp add: pointExists_def list_ex_iff)

lemma handlePlotClick_addPoint:
  "handlePlotClick ps ev =
     (if target_is_point ev then ps else addPoint ps (click_x ev) (click_y ev))"
  by (simp add: handlePlotClick_def click_x_def click_y_def Let_def)

text \<open>
  C8. If some point of the set has \<open>x\<close> and \<open>y\<close> both \<open>===\<close> to the candidate's, the
  insertion at the end of \<open>handlePlotClick\<close> leaves the set as it is, and so both results;
  a point of the set with the candidate's very coordinates is such a point unless a
  coordinate is NaN; and a click whose coordinates are those of a point of the set
  changes nothing.
\<close>

theorem duplicate_point_rejected:
  "((\<exists>p \<in> set ps. js_eq (x p) a \<and> js_eq (y p) b) \<longrightarrow>
      addPoint ps a b = ps \<and>
      calculateCorrelation (addPoint ps a b) = calculateCorrelation ps \<and>
      calculateRegression (addPoint ps a b) = calculateRegression ps) \<and>
   (\<lparr>x = a, y = b\<rparr> \<in> set ps \<and> a \<noteq> NaN \<and> b \<noteq> NaN \<longrightarrow> addPoint ps a b = ps) \<and>
   ((\<exists>p \<in> set ps. js_eq (x p) (click_x ev) \<and> js_eq (y p) (click_y ev)) \<longrightarrow>
      handlePlotClick ps ev = ps)"
proof (intro conjI impI)
  assume "\<lparr>x = a, y = b\<rparr> \<in> set ps \<and> a \<noteq> NaN \<and> b \<noteq> NaN"
  then have "\<exists>p \<in> set ps. js_eq (x p) a \<and> js_eq (y p) b"
    by (intro bexI [of _ "\<lparr>x = a, y = b\<rparr>"]) (simp_all add: js_eq_refl)
  then show "addPoint ps a b = ps"
    by (simp add: addPoint_def pointExists_iff)
qed (simp_all add: handlePlotClick_addPoint addPoint_def pointExists_iff)

theorem duplicate_point_rejected_witness:
  "(\<exists>p \<in> set [\<lparr>x = js_of_int 0, y = js_of_int 5\<rparr>].
      js_eq (x p) (click_x click_quarter_up) \<and> js_eq (y p) (click_y click_quarter_up)) \<and>
   addPoint [\<lparr>x = js_of_int 0, y = js_of_int 5\<rparr>]
     (click_x click_quarter_up) (click_y click_quarter_up) =
     [\<lparr>x = js_of_int 0, y = js_of_int 5\<rparr>] \<and>
   handlePlotClick [\<lparr>x = js_of_int 0, y = js_of_int 5\<rparr>] click_quarter_up =
     [\<lparr>x = js_of_int 0, y = js_of_int 5\<rparr>]"
proof -
  have "js_eq (js_of_int 0) (click_x click_quarter_up)"
    by code_simp
  moreover have "js_eq (js_of_int 5) (click_y click_quarter_up)"
    by code_simp
  ultimately have dup: "\<exists>p \<in> set [\<lparr>x = js_of_int 0, y = js_of_int 5\<rparr>].
      js_eq (x p) (click_x click_quarter_up) \<and> js_eq (y p) (click_y click_quarter_up)"
    by simp
  from duplicate_point_rejected
    [of "[\<lparr>x = js_of_int 0, y = js_of_int 5\<rparr>]" "click_x click_quarter_up"
      "click_y click_quarter_up" click_quarter_up] dup
  show ?thesis by blast
qed

text \<open>
  The recomputation overwrites the four derived fields of the component with the results
  for the current points and leaves \<open>points\<close> alone.
\<close>

lemma useEffect_recomputes:
  "useEffect st =
     st\<lparr>correlation := correlation_result.correlation (calculateCorrelation (points st)),
        calculationSteps := correlation_result.steps (calculateCorrelation (points st)),
        regressionLine := line (calculateRegression (points st)),
        regressionSteps := regression_result.steps (calculateRegression (points st))\<rparr>"
  by (simp add: useEffect_def Let_def)

end
